theory Spec2Isabelle
  imports Complex_Main
begin

section \<open>Data model\<close>

text \<open>
  The scripts build Qiskit circuits and hand them to Qiskit's statevector simulator and
  sampler. The circuit builders (\<open>create_bell_state\<close>, \<open>create_w_state\<close>, the inline
  circuits of the experiments), \<open>run_circuit_sampler\<close>, \<open>run_and_print\<close>,
  \<open>print_statevector\<close> and \<open>compare_circuits\<close> are embedded from the Python source.
  The simulator and the sampler themselves are not part of the source files; they are
  embedded from sections 3 and 4 of the specification and marked as such.
\<close>

text \<open>Python's \<open>ValueError\<close> is what the source raises on a bad parameter; the
  specification calls this error kind \<open>InvalidParameterError\<close>. \<open>AttributeError\<close> is what
  reading the classical register \<open>c\<close> of a sampler result raises when the circuit has
  none. The two other kinds are the engine's, from section 7 of the specification.\<close>

datatype error = ValueError | AttributeError | InvalidQubitIndexError | NormalizationError

text \<open>The gate calls the source uses, with Qiskit's argument order: \<open>qc.cx(control, target)\<close>,
  \<open>qc.ry(theta, qubit)\<close>, \<open>qc.cry(theta, control, target)\<close>.\<close>

datatype gate =
    H nat
  | X nat
  | Z nat
  | CX nat nat
  | CZ nat nat
  | CH nat nat
  | RY real nat
  | CRY real nat nat

text \<open>\<open>QuantumCircuit(n, m)\<close>: qubit count, classical-bit count, the gates in order, and
  the final measurement marker as (qubit, classical bit) pairs.\<close>

record circuit =
  num_qubits :: nat
  num_clbits :: nat
  gates :: "gate list"
  measures :: "(nat \<times> nat) list"

type_synonym statevector = "complex list"

type_synonym matrix = "real \<times> real \<times> real \<times> real"

type_synonym counts = "string \<rightharpoonup> nat"

section \<open>Gate library\<close>

text \<open>The simulator is Qiskit's and is missing from the source files; section 4.1 of the
  specification gives the matrix of each gate kind, written here row by row as
  \<open>(u00, u01, u10, u11)\<close>.\<close>

text \<open>Modelled from the spec: the matrix of H, missing with the simulator.\<close>

definition h_matrix :: matrix where
  "h_matrix = (1 / sqrt 2, 1 / sqrt 2, 1 / sqrt 2, - (1 / sqrt 2))"

text \<open>Modelled from the spec: the matrix of X, missing with the simulator.\<close>

definition x_matrix :: matrix where
  "x_matrix = (0, 1, 1, 0)"

text \<open>Modelled from the spec: the matrix of Z, missing with the simulator.\<close>

definition z_matrix :: matrix where
  "z_matrix = (1, 0, 0, - 1)"

text \<open>Modelled from the spec: the matrix of RY, missing with the simulator.\<close>

definition ry_matrix :: "real \<Rightarrow> matrix" where
  "ry_matrix \<theta> = (cos (\<theta> / 2), - sin (\<theta> / 2), sin (\<theta> / 2), cos (\<theta> / 2))"

text \<open>Modelled from the spec: the gate library of section 4.1, missing with the
  simulator. A controlled gate carries the matrix of its uncontrolled kind; CZ is the
  controlled Z (amplitude times \<open>-1\<close> where both bits are 1).\<close>

fun gate_matrix :: "gate \<Rightarrow> matrix" where
  "gate_matrix (H q) = h_matrix"
| "gate_matrix (X q) = x_matrix"
| "gate_matrix (Z q) = z_matrix"
| "gate_matrix (CX c t) = x_matrix"
| "gate_matrix (CZ c t) = z_matrix"
| "gate_matrix (CH c t) = h_matrix"
| "gate_matrix (RY \<theta> q) = ry_matrix \<theta>"
| "gate_matrix (CRY \<theta> c t) = ry_matrix \<theta>"

fun gate_control :: "gate \<Rightarrow> nat option" where
  "gate_control (CX c t) = Some c"
| "gate_control (CZ c t) = Some c"
| "gate_control (CH c t) = Some c"
| "gate_control (CRY \<theta> c t) = Some c"
| "gate_control g = None"

fun gate_target :: "gate \<Rightarrow> nat" where
  "gate_target (H q) = q"
| "gate_target (X q) = q"
| "gate_target (Z q) = q"
| "gate_target (CX c t) = t"
| "gate_target (CZ c t) = t"
| "gate_target (CH c t) = t"
| "gate_target (RY \<theta> q) = q"
| "gate_target (CRY \<theta> c t) = t"

definition gate_qubits :: "gate \<Rightarrow> nat list" where
  "gate_qubits g = (case gate_control g of None \<Rightarrow> [] | Some c \<Rightarrow> [c]) @ [gate_target g]"

text \<open>Modelled from the spec: the application rule of section 4.1. Bit \<open>q\<close> of a basis
  index is qubit \<open>q\<close>. The indices that agree outside the target qubit form the pair
  \<open>i\<close>, \<open>flip_bit t i\<close>; the 2x2 matrix acts on that pair. A controlled gate does so only
  where the control bit is 1 and leaves every other amplitude as it is.\<close>

definition control_on :: "nat option \<Rightarrow> nat \<Rightarrow> bool" where
  "control_on ctl i = (case ctl of None \<Rightarrow> True | Some c \<Rightarrow> bit i c)"

text \<open>Modelled from the spec: the amplitude at index \<open>i\<close> after a gate (section 4.1),
  missing with the simulator.\<close>

definition amp_after :: "nat option \<Rightarrow> matrix \<Rightarrow> nat \<Rightarrow> statevector \<Rightarrow> nat \<Rightarrow> complex" where
  "amp_after ctl u t sv i =
     (case u of (u00, u01, u10, u11) \<Rightarrow>
        if control_on ctl i then
          (if bit i t
           then of_real u10 * sv ! flip_bit t i + of_real u11 * sv ! i
           else of_real u00 * sv ! i + of_real u01 * sv ! flip_bit t i)
        else sv ! i)"

text \<open>Modelled from the spec: one gate applied to the whole amplitude array (section
  4.1), missing with the simulator.\<close>

definition apply_matrix :: "nat option \<Rightarrow> matrix \<Rightarrow> nat \<Rightarrow> statevector \<Rightarrow> statevector" where
  "apply_matrix ctl u t sv = map (amp_after ctl u t sv) [0..<length sv]"

section \<open>Statevector engine\<close>

text \<open>The engine of section 4.2 of the specification stands for Qiskit's
  \<open>Statevector.from_instruction\<close>, which the source calls and which is missing from the
  source files.\<close>

text \<open>Modelled from the spec: the sum of the squared magnitudes, the quantity of the
  engine's normalization check (missing with the simulator).\<close>

definition norm_sq :: "statevector \<Rightarrow> real" where
  "norm_sq sv = sum_list (map (\<lambda>z. (cmod z)\<^sup>2) sv)"

text \<open>Modelled from the spec: \<open>probabilities()\<close>, \<open>p_i = |amplitude_i|^2\<close> (missing with the
  simulator).\<close>

definition probabilities :: "statevector \<Rightarrow> real list" where
  "probabilities sv = map (\<lambda>z. (cmod z)\<^sup>2) sv"

text \<open>Modelled from the spec: \<open>initialize(n)\<close>, the all-zero basis state (missing with
  the simulator).\<close>

definition initialize :: "nat \<Rightarrow> statevector" where
  "initialize n = 1 # replicate (2 ^ n - 1) 0"

text \<open>Modelled from the spec: \<open>apply(gate)\<close> (missing with the simulator). It refuses a
  qubit index outside the register with \<open>InvalidQubitIndexError\<close>, applies the gate, and
  signals \<open>NormalizationError\<close> when the norm has drifted beyond the tolerance \<open>1e-6\<close>.\<close>

definition apply_gate :: "nat \<Rightarrow> gate \<Rightarrow> statevector \<Rightarrow> error + statevector" where
  "apply_gate n g sv =
     (if list_ex (\<lambda>q. n \<le> q) (gate_qubits g) then Inl InvalidQubitIndexError
      else let sv' = apply_matrix (gate_control g) (gate_matrix g) (gate_target g) sv
           in if \<bar>norm_sq sv' - 1\<bar> > 1 / 10 ^ 6 then Inl NormalizationError else Inr sv')"

text \<open>Modelled from the spec: \<open>run(circuit)\<close> (missing with the simulator) replays the
  gates in order from the all-zero state and stops at the first error.\<close>

fun run_gates :: "nat \<Rightarrow> gate list \<Rightarrow> statevector \<Rightarrow> error + statevector" where
  "run_gates n [] sv = Inr sv"
| "run_gates n (g # gs) sv =
     (case apply_gate n g sv of Inl e \<Rightarrow> Inl e | Inr sv' \<Rightarrow> run_gates n gs sv')"

definition run :: "circuit \<Rightarrow> error + statevector" where
  "run qc = run_gates (num_qubits qc) (gates qc) (initialize (num_qubits qc))"

text \<open>The transform of one gate, without the engine's checks.\<close>

definition step :: "gate \<Rightarrow> statevector \<Rightarrow> statevector" where
  "step g sv = apply_matrix (gate_control g) (gate_matrix g) (gate_target g) sv"

text \<open>A gate fits a register of \<open>n\<close> qubits when its qubit indices are inside the
  register and, for a controlled gate, control and target are different qubits (Qiskit
  refuses a gate call that names one qubit twice).\<close>

definition wf_gate :: "nat \<Rightarrow> gate \<Rightarrow> bool" where
  "wf_gate n g = (list_all (\<lambda>q. q < n) (gate_qubits g) \<and> distinct (gate_qubits g))"

definition orthogonal :: "matrix \<Rightarrow> bool" where
  "orthogonal u =
     (case u of (a, b, c, d) \<Rightarrow> a\<^sup>2 + c\<^sup>2 = 1 \<and> b\<^sup>2 + d\<^sup>2 = 1 \<and> a * b + c * d = 0)"

section \<open>Sampler\<close>

text \<open>Python's \<open>format(i, '0{w}b')\<close>: the binary digits of \<open>i\<close>, most significant first,
  padded with zeros on the left to width \<open>w\<close>. The source renders basis indices this way
  (\<open>print_statevector\<close>, \<open>run_and_print\<close>, \<open>run_show\<close>).\<close>

fun bin_digits :: "nat \<Rightarrow> string" where
  "bin_digits i =
     (if i < 2 then [if i = 0 then CHR ''0'' else CHR ''1'']
      else bin_digits (i div 2) @ [if even i then CHR ''0'' else CHR ''1''])"

declare bin_digits.simps [simp del]

definition format_bin :: "nat \<Rightarrow> nat \<Rightarrow> string" where
  "format_bin w i = replicate (w - length (bin_digits i)) CHR ''0'' @ bin_digits i"

text \<open>The sampler of section 4.4 of the specification stands for Qiskit's
  \<open>StatevectorSampler\<close>, which the source calls and which is missing from the source
  files.\<close>

text \<open>Modelled from the spec: one categorical draw of the missing sampler, by the inverse
  transform of the cumulative distribution: the first index whose cumulative
  probability exceeds the uniform number \<open>u\<close>.\<close>

fun draw_from :: "real \<Rightarrow> real list \<Rightarrow> real \<Rightarrow> nat" where
  "draw_from acc [] u = 0"
| "draw_from acc (p # ps) u = (if u < acc + p then 0 else Suc (draw_from (acc + p) ps u))"

definition draw :: "real list \<Rightarrow> real \<Rightarrow> nat" where
  "draw ps u = draw_from 0 ps u"

text \<open>Modelled from the spec: the aggregation of the missing sampler into counts.\<close>

definition tally :: "counts \<Rightarrow> string \<Rightarrow> counts" where
  "tally c k = c(k \<mapsto> (case c k of None \<Rightarrow> 1 | Some v \<Rightarrow> v + 1))"

text \<open>Modelled from the spec: the key of shot \<open>k\<close> in the missing sampler, the bitstring
  rendering of the drawn index. The rendering \<open>render\<close> is an argument: the caller passes
  the classical bits that the circuit's measurement marker writes. The stream \<open>us\<close>
  holds the uniform numbers of the random generator, one per shot; a seed fixes the
  stream.\<close>

definition outcome :: "(nat \<Rightarrow> real) \<Rightarrow> real list \<Rightarrow> (nat \<Rightarrow> string) \<Rightarrow> nat \<Rightarrow> string" where
  "outcome us ps render k = render (draw ps (us k))"

text \<open>Modelled from the spec: \<open>sample(probabilities, shots, seed)\<close> of the missing sampler.
  A shot count \<open>\<le> 0\<close> is an error (the specification's \<open>InvalidParameterError\<close>).\<close>

definition sample ::
  "(nat \<Rightarrow> real) \<Rightarrow> real list \<Rightarrow> (nat \<Rightarrow> string) \<Rightarrow> int \<Rightarrow> error + counts" where
  "sample us ps render shots =
     (if shots \<le> 0 then Inl ValueError
      else Inr (foldl (\<lambda>c k. tally c (outcome us ps render k)) Map.empty [0..<nat shots]))"

text \<open>Python's \<open>counts.get(key, 0)\<close>.\<close>

definition count_of :: "counts \<Rightarrow> string \<Rightarrow> nat" where
  "count_of c k = (case c k of None \<Rightarrow> 0 | Some v \<Rightarrow> v)"

text \<open>The numbers of a uniform generator lie in \<open>[0, 1)\<close>.\<close>

definition uniform_stream :: "(nat \<Rightarrow> real) \<Rightarrow> bool" where
  "uniform_stream us = (\<forall>k. 0 \<le> us k \<and> us k < 1)"

text \<open>Two streams to run the sampler on: every draw \<open>0\<close>, every draw \<open>1/2\<close>.\<close>

definition zero_stream :: "nat \<Rightarrow> real" where
  "zero_stream k = 0"

definition half_stream :: "nat \<Rightarrow> real" where
  "half_stream k = 1 / 2"


section \<open>The circuits of the source\<close>

text \<open>\<open>qc.measure(qubits, clbits)\<close>.\<close>

definition measure_qubits :: "circuit \<Rightarrow> nat list \<Rightarrow> nat list \<Rightarrow> circuit" where
  "measure_qubits qc qs cs = qc\<lparr>measures := measures qc @ zip qs cs\<rparr>"

text \<open>\<open>remove_final_measurements(inplace=False)\<close>: the copy without the final measurements
  and without the classical bits they leave idle.\<close>

definition remove_final_measurements :: "circuit \<Rightarrow> circuit" where
  "remove_final_measurements qc = qc\<lparr>num_clbits := 0, measures := []\<rparr>"

text \<open>\<open>quantum_utils.create_bell_state\<close>: the \<open>if\<close>/\<open>elif\<close> chain over the variant name.\<close>

definition create_bell_state :: "string \<Rightarrow> error + circuit" where
  "create_bell_state variant =
     (if variant = ''phi_plus'' then
        Inr \<lparr>num_qubits = 2, num_clbits = 2, gates = [H 0, CX 0 1], measures = []\<rparr>
      else if variant = ''phi_minus'' then
        Inr \<lparr>num_qubits = 2, num_clbits = 2, gates = [H 0, Z 0, CX 0 1], measures = []\<rparr>
      else if variant = ''psi_plus'' then
        Inr \<lparr>num_qubits = 2, num_clbits = 2, gates = [H 0, CX 0 1, X 1], measures = []\<rparr>
      else if variant = ''psi_minus'' then
        Inr \<lparr>num_qubits = 2, num_clbits = 2, gates = [H 0, Z 0, CX 0 1, X 1], measures = []\<rparr>
      else Inl ValueError)"

text \<open>\<open>quantum_utils.create_w_state\<close>: the explicit sequence for three qubits, the
  \<open>RY\<close>/\<open>CRY\<close> loop over \<open>range(1, n_qubits)\<close> otherwise. \<open>1 / n_qubits\<close> is Python's true
  division.\<close>

definition w_angle :: "int \<Rightarrow> real" where
  "w_angle k = 2 * arccos (sqrt (1 / real_of_int k))"

definition create_w_state :: "int \<Rightarrow> error + circuit" where
  "create_w_state n_qubits =
     (if n_qubits < 2 then Inl ValueError
      else Inr \<lparr>num_qubits = nat n_qubits, num_clbits = 0,
        gates =
          (if n_qubits = 3 then [X 0, CH 0 1, CH 0 2, CX 1 0, CX 2 0]
           else RY (w_angle n_qubits) 0 #
                map (\<lambda>i. CRY (w_angle (n_qubits - int i)) (i - 1) i) [1..<nat n_qubits]),
        measures = []\<rparr>)"

text \<open>\<open>quantum_experiments.ghz_experiments\<close>: the measured GHZ circuit and the one built
  for the statevector.\<close>

definition qc_ghz :: circuit where
  "qc_ghz = measure_qubits \<lparr>num_qubits = 3, num_clbits = 3, gates = [H 0, CX 0 1, CX 0 2],
     measures = []\<rparr> [0, 1, 2] [0, 1, 2]"

definition qc_ghz_sv :: circuit where
  "qc_ghz_sv = \<lparr>num_qubits = 3, num_clbits = 0, gates = [H 0, CX 0 1, CX 0 2], measures = []\<rparr>"

text \<open>\<open>test_quantum.test_identity\<close> (the same circuit as \<open>single_qubit_h_h_measurement\<close>
  and \<open>qc1\<close> of \<open>interference_experiments\<close>).\<close>

definition qc_hh :: circuit where
  "qc_hh = measure_qubits \<lparr>num_qubits = 1, num_clbits = 1, gates = [H 0, H 0], measures = []\<rparr> [0] [0]"


section \<open>Running and inspecting\<close>

text \<open>The classical register after a shot that found the qubits in basis index \<open>i\<close>:
  classical bit \<open>c\<close> holds bit \<open>q\<close> of \<open>i\<close> when the marker measures qubit \<open>q\<close> into \<open>c\<close>
  (the last such measurement, when there are several) and stays 0 when nothing is
  measured into it. \<open>get_counts()\<close> writes the register with classical bit 0 rightmost.\<close>

definition measured_qubit :: "(nat \<times> nat) list \<Rightarrow> nat \<Rightarrow> nat option" where
  "measured_qubit ms c = map_of (rev (map (\<lambda>(q, c'). (c', q)) ms)) c"

definition clbit_string :: "(nat \<times> nat) list \<Rightarrow> nat \<Rightarrow> nat \<Rightarrow> string" where
  "clbit_string ms m i =
     map (\<lambda>c. case measured_qubit ms c of
                 None \<Rightarrow> CHR ''0''
               | Some q \<Rightarrow> if bit i q then CHR ''1'' else CHR ''0'')
         (rev [0..<m])"

text \<open>\<open>quantum_experiments.run_circuit_sampler\<close>: a fresh \<open>StatevectorSampler()\<close> with no
  seed runs the circuit, and \<open>result[0].data.c.get_counts()\<close> returns the counts of the
  classical register \<open>c\<close>, keyed by the measured classical bits. A circuit built without
  classical bits has no register \<open>c\<close>, and reading it raises \<open>AttributeError\<close>. The stream
  \<open>us\<close> is what the unseeded generator of this call happens to produce.\<close>

definition run_circuit_sampler :: "(nat \<Rightarrow> real) \<Rightarrow> circuit \<Rightarrow> int \<Rightarrow> error + counts" where
  "run_circuit_sampler us qc shots =
     (case run qc of Inl e \<Rightarrow> Inl e
      | Inr sv \<Rightarrow>
          (case sample us (probabilities sv) (clbit_string (measures qc) (num_clbits qc)) shots of
             Inl e \<Rightarrow> Inl e
           | Inr c \<Rightarrow> if num_clbits qc = 0 then Inl AttributeError else Inr c))"

text \<open>\<open>test_quantum.test_bell_state\<close> and \<open>test_quantum.test_identity\<close>: the counts the
  assertions are made on.\<close>

definition test_bell_state :: "(nat \<Rightarrow> real) \<Rightarrow> error + counts" where
  "test_bell_state us =
     (case create_bell_state ''phi_plus'' of Inl e \<Rightarrow> Inl e
      | Inr qc \<Rightarrow> run_circuit_sampler us (measure_qubits qc [0, 1] [0, 1]) 1000)"

definition test_identity :: "(nat \<Rightarrow> real) \<Rightarrow> error + counts" where
  "test_identity us = run_circuit_sampler us qc_hh 1000"

text \<open>\<open>quantum_experiments.run_and_print\<close>. The result holds what is printed (the counts,
  when sampling ran, and the amplitude lines) and the returned statevector. Sampling is
  behind the guard \<open>if shots > 0\<close>.\<close>

record run_output =
  counts_printed :: "counts option"
  lines_printed :: "(string \<times> complex) list"
  returned :: "statevector option"

definition amplitude_lines :: "nat \<Rightarrow> statevector \<Rightarrow> (string \<times> complex) list" where
  "amplitude_lines w sv =
     map (\<lambda>i. (format_bin w i, sv ! i)) (filter (\<lambda>i. cmod (sv ! i) > 1 / 10 ^ 10) [0..<length sv])"

definition run_and_print :: "(nat \<Rightarrow> real) \<Rightarrow> circuit \<Rightarrow> int \<Rightarrow> bool \<Rightarrow> error + run_output" where
  "run_and_print us qc shots show_statevector =
     (case (if shots > 0 then map_sum id Some (run_circuit_sampler us qc shots) else Inr None) of
        Inl e \<Rightarrow> Inl e
      | Inr cnt \<Rightarrow>
          if show_statevector then
            (case run (remove_final_measurements qc) of
               Inl e \<Rightarrow> Inl e
             | Inr sv \<Rightarrow> Inr \<lparr>counts_printed = cnt, lines_printed = amplitude_lines 3 sv,
                              returned = Some sv\<rparr>)
          else Inr \<lparr>counts_printed = cnt, lines_printed = [], returned = None\<rparr>)"

text \<open>\<open>quantum_experiments.run_show\<close>: the same without the guard.\<close>

definition run_show :: "(nat \<Rightarrow> real) \<Rightarrow> circuit \<Rightarrow> int \<Rightarrow> bool \<Rightarrow> error + run_output" where
  "run_show us qc shots show_statevector =
     (case run_circuit_sampler us qc shots of
        Inl e \<Rightarrow> Inl e
      | Inr cnt \<Rightarrow>
          if show_statevector then
            (case run (remove_final_measurements qc) of
               Inl e \<Rightarrow> Inl e
             | Inr sv \<Rightarrow> Inr \<lparr>counts_printed = Some cnt,
                              lines_printed = amplitude_lines (num_qubits qc) sv,
                              returned = Some sv\<rparr>)
          else Inr \<lparr>counts_printed = Some cnt, lines_printed = [], returned = None\<rparr>)"

text \<open>\<open>quantum_utils.print_statevector\<close>. \<open>n_qubits = int(np.log2(len(sv.data)))\<close> is the
  floor of the binary logarithm (a statevector has at least one amplitude). After the
  header line there is one entry per printed line: the basis label (the bitstring
  between \<open>|\<close> and the closing bracket), the magnitude, and the phase when the line
  shows one; \<open>np.angle\<close> is the principal argument \<open>Arg\<close>. The number formatting \<open>:.4f\<close>
  is left out.\<close>

fun ilog2 :: "nat \<Rightarrow> nat" where
  "ilog2 n = (if n < 2 then 0 else Suc (ilog2 (n div 2)))"

declare ilog2.simps [simp del]

record entry =
  basis :: string
  magnitude :: real
  phase :: "real option"

definition default_threshold :: real where
  "default_threshold = 1 / 10 ^ 10"

definition print_entry :: "real \<Rightarrow> nat \<Rightarrow> nat \<Rightarrow> complex \<Rightarrow> entry" where
  "print_entry threshold n i amp =
     \<lparr>basis = format_bin n i, magnitude = cmod amp,
      phase = (if \<bar>Arg amp\<bar> < threshold then None else Some (Arg amp))\<rparr>"

definition print_statevector :: "statevector \<Rightarrow> real \<Rightarrow> entry list" where
  "print_statevector sv threshold =
     map (\<lambda>i. print_entry threshold (ilog2 (length sv)) i (sv ! i))
         (filter (\<lambda>i. cmod (sv ! i) > threshold) [0..<length sv])"

text \<open>The rendering the specification asks for (section 3): the \<open>n\<close>-bit string of a
  basis index, bit \<open>q\<close> of the index being qubit \<open>q\<close> and qubit 0 the rightmost character.\<close>

definition bitstring :: "nat \<Rightarrow> nat \<Rightarrow> string" where
  "bitstring n i = map (\<lambda>q. if bit i q then CHR ''1'' else CHR ''0'') (rev [0..<n])"

text \<open>\<open>quantum_utils.compare_circuits\<close>, for circuits without measurements. \<open>np.isclose\<close>
  with NumPy's default tolerances (\<open>rtol = 1e-05\<close>, \<open>atol = 1e-08\<close>); \<open>np.dot\<close> refuses
  vectors of different lengths. Only the returned Boolean is kept, not the printed
  text.\<close>

definition isclose :: "real \<Rightarrow> real \<Rightarrow> bool" where
  "isclose a b = (\<bar>a - b\<bar> \<le> 1 / 10 ^ 8 + 1 / 10 ^ 5 * \<bar>b\<bar>)"

definition conj_dot :: "statevector \<Rightarrow> statevector \<Rightarrow> complex" where
  "conj_dot sv1 sv2 = sum_list (map2 (\<lambda>a b. cnj a * b) sv1 sv2)"

definition fidelity :: "statevector \<Rightarrow> statevector \<Rightarrow> real" where
  "fidelity sv1 sv2 = cmod (conj_dot sv1 sv2)"

definition compare_circuits :: "circuit \<Rightarrow> circuit \<Rightarrow> error + bool" where
  "compare_circuits qc1 qc2 =
     (case run qc1 of Inl e \<Rightarrow> Inl e
      | Inr sv1 \<Rightarrow>
          (case run qc2 of Inl e \<Rightarrow> Inl e
           | Inr sv2 \<Rightarrow>
               if length sv1 \<noteq> length sv2 then Inl ValueError
               else Inr (isclose (fidelity sv1 sv2) 1)))"

text \<open>One-qubit circuits to compare: the empty circuit, one small rotation, and \<open>X\<close>
  with and without a following \<open>Z\<close>.\<close>

definition qc_idle :: circuit where
  "qc_idle = \<lparr>num_qubits = 1, num_clbits = 0, gates = [], measures = []\<rparr>"

definition qc_tilted :: circuit where
  "qc_tilted = \<lparr>num_qubits = 1, num_clbits = 0,
     gates = [RY (2 * arccos (999999 / 1000000)) 0], measures = []\<rparr>"

definition qc_x :: circuit where
  "qc_x = \<lparr>num_qubits = 1, num_clbits = 0, gates = [X 0], measures = []\<rparr>"

definition qc_xz :: circuit where
  "qc_xz = \<lparr>num_qubits = 1, num_clbits = 0, gates = [X 0, Z 0], measures = []\<rparr>"

text \<open>Two statevectors are the same state up to a global phase when one is the other
  times a complex number of modulus 1.\<close>

definition same_up_to_phase :: "statevector \<Rightarrow> statevector \<Rightarrow> bool" where
  "same_up_to_phase sv1 sv2 = (\<exists>c. cmod c = 1 \<and> sv2 = map (\<lambda>z. c * z) sv1)"

section \<open>Index pairs\<close>

lemma flip_bit_nat_eq: "flip_bit q (i::nat) = (if bit i q then i - 2 ^ q else i + 2 ^ q)"
proof (cases "bit i q")
  case True
  have nb: "\<not> bit (flip_bit q i) q"
    by (simp add: bit_flip_bit_iff True)
  have "set_bit q (flip_bit q i) = i"
    by (rule bit_eqI) (auto simp add: bit_set_bit_iff bit_flip_bit_iff True)
  then have "i = flip_bit q i + 2 ^ q"
    using nb by (simp add: set_bit_eq)
  then show ?thesis
    using True by simp
next
  case False
  then show ?thesis
    by (simp add: flip_bit_eq_if set_bit_eq)
qed

lemma flip_bit_flip_bit: "flip_bit q (flip_bit q (i::nat)) = i"
  by (rule bit_eqI) (auto simp add: bit_flip_bit_iff)

lemma flip_bit_less: "t < n \<Longrightarrow> (i::nat) < 2 ^ n \<Longrightarrow> flip_bit t i < 2 ^ n"
  by (simp add: take_bit_nat_eq_self_iff [symmetric] take_bit_flip_bit_eq)

lemma flip_bit_bij: "t < n \<Longrightarrow> bij_betw (flip_bit t) {..<(2::nat) ^ n} {..<2 ^ n}"
  by (rule bij_betw_byWitness [where f' = "flip_bit t"]) (auto simp add: flip_bit_flip_bit flip_bit_less)

lemma sum_flip_bit:
  fixes f :: "nat \<Rightarrow> real"
  assumes "t < n"
  shows "(\<Sum>i<2 ^ n. f (flip_bit t i)) = (\<Sum>i<2 ^ n. f i)"
  using sum.reindex_bij_betw [OF flip_bit_bij [OF assms], of f] .

lemma gate_matrix_orthogonal: "orthogonal (gate_matrix g)"
  by (cases g) (simp_all add: orthogonal_def h_matrix_def x_matrix_def z_matrix_def ry_matrix_def power2_eq_square field_simps)

lemma pair_norm:
  fixes a b c d :: real and x y :: complex
  assumes "a\<^sup>2 + c\<^sup>2 = 1" "b\<^sup>2 + d\<^sup>2 = 1" "a * b + c * d = 0"
  shows "(cmod (of_real a * x + of_real b * y))\<^sup>2 + (cmod (of_real c * x + of_real d * y))\<^sup>2
         = (cmod x)\<^sup>2 + (cmod y)\<^sup>2"
proof -
  have "(cmod (of_real a * x + of_real b * y))\<^sup>2 + (cmod (of_real c * x + of_real d * y))\<^sup>2
      = (a\<^sup>2 + c\<^sup>2) * ((Re x)\<^sup>2 + (Im x)\<^sup>2) + (b\<^sup>2 + d\<^sup>2) * ((Re y)\<^sup>2 + (Im y)\<^sup>2)
        + 2 * (a * b + c * d) * (Re x * Re y + Im x * Im y)"
    unfolding cmod_power2 by (simp add: power2_eq_square algebra_simps)
  also have "\<dots> = (cmod x)\<^sup>2 + (cmod y)\<^sup>2"
    by (simp add: assms cmod_power2)
  finally show ?thesis .
qed

lemma norm_sq_nth: "norm_sq sv = (\<Sum>i<length sv. (cmod (sv ! i))\<^sup>2)"
proof -
  have "norm_sq sv = (\<Sum>i = 0..<length sv. map (\<lambda>z. (cmod z)\<^sup>2) sv ! i)"
    unfolding norm_sq_def by (simp add: sum_list_sum_nth)
  also have "\<dots> = (\<Sum>i = 0..<length sv. (cmod (sv ! i))\<^sup>2)"
    by (rule sum.cong) simp_all
  finally show ?thesis
    by (simp add: atLeast0LessThan)
qed

lemma length_apply_matrix: "length (apply_matrix ctl u t sv) = length sv"
  by (simp add: apply_matrix_def)

lemma nth_apply_matrix:
  "i < length sv \<Longrightarrow> apply_matrix ctl u t sv ! i = amp_after ctl u t sv i"
  by (simp add: apply_matrix_def)

lemma control_on_flip: "ctl \<noteq> Some t \<Longrightarrow> control_on ctl (flip_bit t i) = control_on ctl i"
  by (cases ctl) (auto simp add: control_on_def bit_flip_bit_iff)

lemma amp_after_pair:
  assumes orth: "orthogonal u" and ctl: "ctl \<noteq> Some t"
  shows "(cmod (amp_after ctl u t sv i))\<^sup>2 + (cmod (amp_after ctl u t sv (flip_bit t i)))\<^sup>2
         = (cmod (sv ! i))\<^sup>2 + (cmod (sv ! flip_bit t i))\<^sup>2"
proof -
  obtain a b c d where u: "u = (a, b, c, d)"
    by (cases u) auto
  from orth have o: "a\<^sup>2 + c\<^sup>2 = 1" "b\<^sup>2 + d\<^sup>2 = 1" "a * b + c * d = 0"
    by (simp_all add: orthogonal_def u)
  show ?thesis
  proof (cases "control_on ctl i")
    case False
    then show ?thesis
      by (simp add: amp_after_def u control_on_flip [OF ctl])
  next
    case on: True
    show ?thesis
    proof (cases "bit i t")
      case True
      have "(cmod (of_real a * sv ! flip_bit t i + of_real b * sv ! i))\<^sup>2
            + (cmod (of_real c * sv ! flip_bit t i + of_real d * sv ! i))\<^sup>2
            = (cmod (sv ! flip_bit t i))\<^sup>2 + (cmod (sv ! i))\<^sup>2"
        by (rule pair_norm [OF o])
      then show ?thesis
        using on True
        by (simp add: amp_after_def u control_on_flip [OF ctl] bit_flip_bit_iff flip_bit_flip_bit)
    next
      case False
      have "(cmod (of_real a * sv ! i + of_real b * sv ! flip_bit t i))\<^sup>2
            + (cmod (of_real c * sv ! i + of_real d * sv ! flip_bit t i))\<^sup>2
            = (cmod (sv ! i))\<^sup>2 + (cmod (sv ! flip_bit t i))\<^sup>2"
        by (rule pair_norm [OF o])
      then show ?thesis
        using on False
        by (simp add: amp_after_def u control_on_flip [OF ctl] bit_flip_bit_iff flip_bit_flip_bit)
    qed
  qed
qed

lemma apply_matrix_norm:
  assumes len: "length sv = 2 ^ n" and t: "t < n" and ctl: "ctl \<noteq> Some t"
    and orth: "orthogonal u"
  shows "norm_sq (apply_matrix ctl u t sv) = norm_sq sv"
proof -
  let ?g = "\<lambda>i. (cmod (amp_after ctl u t sv i))\<^sup>2"
  let ?h = "\<lambda>i. (cmod (sv ! i))\<^sup>2"
  have new: "norm_sq (apply_matrix ctl u t sv) = (\<Sum>i<2 ^ n. ?g i)"
    unfolding norm_sq_nth length_apply_matrix len
    by (rule sum.cong) (simp_all add: nth_apply_matrix len)
  have old: "norm_sq sv = (\<Sum>i<2 ^ n. ?h i)"
    by (simp add: norm_sq_nth len)
  have "(\<Sum>i<2 ^ n. ?g i) + (\<Sum>i<2 ^ n. ?g (flip_bit t i))
        = (\<Sum>i<2 ^ n. ?h i) + (\<Sum>i<2 ^ n. ?h (flip_bit t i))"
    unfolding sum.distrib [symmetric]
    by (rule sum.cong) (simp_all add: amp_after_pair [OF orth ctl])
  moreover have "(\<Sum>i<2 ^ n. ?g (flip_bit t i)) = (\<Sum>i<2 ^ n. ?g i)"
    by (rule sum_flip_bit [OF t])
  moreover have "(\<Sum>i<2 ^ n. ?h (flip_bit t i)) = (\<Sum>i<2 ^ n. ?h i)"
    by (rule sum_flip_bit [OF t])
  ultimately have "(\<Sum>i<2 ^ n. ?g i) = (\<Sum>i<2 ^ n. ?h i)"
    by linarith
  then show ?thesis
    by (simp add: new old)
qed

lemma length_initialize: "length (initialize n) = 2 ^ n"
  by (simp add: initialize_def)

lemma norm_sq_initialize: "norm_sq (initialize n) = 1"
  by (simp add: initialize_def norm_sq_def sum_list_replicate)

lemma wf_gate_target: "wf_gate n g \<Longrightarrow> gate_target g < n"
  by (simp add: wf_gate_def gate_qubits_def)

lemma wf_gate_control: "wf_gate n g \<Longrightarrow> gate_control g \<noteq> Some (gate_target g)"
  by (cases "gate_control g") (auto simp add: wf_gate_def gate_qubits_def)

lemma step_keeps:
  assumes "wf_gate n g" "length sv = 2 ^ n"
  shows "length (step g sv) = 2 ^ n" and "norm_sq (step g sv) = norm_sq sv"
  using assms
  by (simp_all add: step_def length_apply_matrix apply_matrix_norm wf_gate_target
      wf_gate_control gate_matrix_orthogonal)

lemma apply_gate_wf:
  assumes "wf_gate n g" "length sv = 2 ^ n" "norm_sq sv = 1"
  shows "apply_gate n g sv = Inr (step g sv)"
proof -
  have "\<not> list_ex (\<lambda>q. n \<le> q) (gate_qubits g)"
    using assms(1) by (auto simp add: wf_gate_def list_ex_iff list_all_iff)
  moreover have "norm_sq (step g sv) = 1"
    using step_keeps(2) [OF assms(1,2)] assms(3) by simp
  ultimately show ?thesis
    by (simp add: apply_gate_def step_def [symmetric] Let_def)
qed

lemma run_gates_wf:
  assumes "\<forall>g \<in> set gs. wf_gate n g" "length sv = 2 ^ n" "norm_sq sv = 1"
  shows "run_gates n gs sv = Inr (foldl (\<lambda>s g. step g s) sv gs)
         \<and> length (foldl (\<lambda>s g. step g s) sv gs) = 2 ^ n
         \<and> norm_sq (foldl (\<lambda>s g. step g s) sv gs) = 1"
  using assms
proof (induction gs arbitrary: sv)
  case Nil
  then show ?case by simp
next
  case (Cons g gs)
  have wf: "wf_gate n g" using Cons.prems(1) by simp
  have "length (step g sv) = 2 ^ n" "norm_sq (step g sv) = 1"
    using step_keeps [OF wf Cons.prems(2)] Cons.prems(3) by simp_all
  then show ?case
    using Cons.IH [of "step g sv"] Cons.prems(1) apply_gate_wf [OF wf Cons.prems(2,3)]
    by simp
qed

section \<open>Norm preservation\<close>

text \<open>C4. For every circuit of the supported gate kinds whose gates fit the register,
  simulating any prefix of the gate list from the all-zero state succeeds, and the sum
  of the squared magnitudes of the resulting statevector is 1 (so within 1e-9 of 1):
  the invariant holds after every single gate, not only at the end.\<close>

theorem norm_preserved_after_every_gate:
  assumes "list_all (wf_gate (num_qubits qc)) (gates qc)"
  shows "\<exists>sv. run (qc\<lparr>gates := take k (gates qc)\<rparr>) = Inr sv \<and> length sv = 2 ^ num_qubits qc
           \<and> norm_sq sv = 1 \<and> \<bar>sum_list (probabilities sv) - 1\<bar> \<le> 1 / 10 ^ 9"
proof -
  have "\<forall>g \<in> set (take k (gates qc)). wf_gate (num_qubits qc) g"
    using assms by (auto simp add: list_all_iff dest: in_set_takeD)
  from run_gates_wf [OF this length_initialize norm_sq_initialize]
  show ?thesis
    by (simp add: run_def probabilities_def norm_sq_def [symmetric])
qed

theorem norm_preserved_after_every_gate_witness:
  "list_all (wf_gate (num_qubits qc_ghz_sv)) (gates qc_ghz_sv)
   \<and> (\<exists>sv. run (qc_ghz_sv\<lparr>gates := [H 0, CX 0 1]\<rparr>) = Inr sv \<and> length sv = 8 \<and> norm_sq sv = 1)"
  using norm_preserved_after_every_gate [of qc_ghz_sv 2]
  by (auto simp add: qc_ghz_sv_def wf_gate_def gate_qubits_def)

section \<open>Running circuits that fit their register\<close>

lemmas eval_simps = step_def initialize_def apply_matrix_def amp_after_def control_on_def
  h_matrix_def x_matrix_def z_matrix_def upt_rec bit_iff_odd flip_bit_nat_eq

lemma run_wf:
  assumes "list_all (wf_gate (num_qubits qc)) (gates qc)"
  shows "run qc = Inr (foldl (\<lambda>s g. step g s) (initialize (num_qubits qc)) (gates qc))"
  using run_gates_wf [OF _ length_initialize norm_sq_initialize, of "gates qc" "num_qubits qc"] assms
  by (simp add: run_def list_all_iff)

lemma sqrt2_sq: "complex_of_real (sqrt 2) * complex_of_real (sqrt 2) = 2"
proof -
  have "complex_of_real (sqrt 2) * complex_of_real (sqrt 2) = complex_of_real (sqrt 2 * sqrt 2)"
    by (simp only: of_real_mult)
  then show ?thesis by simp
qed

lemma w3_sv: "run \<lparr>num_qubits = 3, num_clbits = 0, gates = [X 0, CH 0 1, CH 0 2, CX 1 0, CX 2 0], measures = []\<rparr>
   = Inr [0, 1/2, 1/2, 0, 1/2, 0, 0, 1/2]"
  by (simp add: run_wf wf_gate_def gate_qubits_def eval_simps sqrt2_sq)

lemma w_angle_cos: "1 \<le> k \<Longrightarrow> cos (w_angle k / 2) = sqrt (1 / real_of_int k)"
proof -
  assume k: "1 \<le> k"
  have "0 \<le> sqrt (1 / real_of_int k)"
    using k by simp
  then have a: "- 1 \<le> sqrt (1 / real_of_int k)"
    by linarith
  have b: "sqrt (1 / real_of_int k) \<le> 1"
    using k by (simp add: real_sqrt_le_1_iff)
  show ?thesis
    using cos_arccos [OF a b] by (simp add: w_angle_def)
qed

lemma w_angle_sin: "1 \<le> k \<Longrightarrow> sin (w_angle k / 2) = sqrt (1 - 1 / real_of_int k)"
proof -
  assume k: "1 \<le> k"
  have "0 \<le> sqrt (1 / real_of_int k)"
    using k by simp
  then have a: "- 1 \<le> sqrt (1 / real_of_int k)"
    by linarith
  have b: "sqrt (1 / real_of_int k) \<le> 1"
    using k by (simp add: real_sqrt_le_1_iff)
  have "0 \<le> 1 / real_of_int k"
    using k by simp
  then show ?thesis
    using sin_arccos [OF a b] by (simp add: w_angle_def)
qed

lemma length_step: "length (step g sv) = length sv"
  by (simp add: step_def length_apply_matrix)

lemma step_controlled_0:
  "gate_control g \<noteq> None \<Longrightarrow> 0 < length sv \<Longrightarrow> step g sv ! 0 = sv ! 0"
  by (auto simp add: step_def nth_apply_matrix amp_after_def control_on_def split: prod.splits)

lemma foldl_controlled_0:
  "list_all (\<lambda>g. gate_control g \<noteq> None) gs \<Longrightarrow> 0 < length sv
   \<Longrightarrow> foldl (\<lambda>s g. step g s) sv gs ! 0 = sv ! 0"
proof (induction gs arbitrary: sv)
  case Nil
  then show ?case by simp
next
  case (Cons g gs)
  then show ?case
    using Cons.IH [of "step g sv"] by (simp add: length_step step_controlled_0)
qed

lemma step_ry_0: "0 < n \<Longrightarrow> step (RY \<theta> 0) (initialize n) ! 0 = of_real (cos (\<theta> / 2))"
proof -
  assume "0 < n"
  then have "(2::nat) ^ 1 \<le> 2 ^ n"
    by (intro power_increasing) simp_all
  then have "(2::nat) ^ n - 1 \<noteq> 0"
    by simp
  then obtain m where m: "(2::nat) ^ n - Suc 0 = Suc m"
    by (cases "(2::nat) ^ n - 1") auto
  show ?thesis
    by (simp add: step_def nth_apply_matrix amp_after_def control_on_def ry_matrix_def
        initialize_def m flip_bit_nat_eq)
qed

lemma w_general_wf:
  "2 \<le> n \<Longrightarrow> list_all (wf_gate (nat n))
     (RY (w_angle n) 0 # map (\<lambda>i. CRY (w_angle (n - int i)) (i - 1) i) [1..<nat n])"
  by (auto simp add: list_all_iff wf_gate_def gate_qubits_def)

lemma w_general_amp0:
  assumes "2 \<le> n" "n \<noteq> 3"
  shows "\<exists>c sv. create_w_state n = Inr c \<and> run c = Inr sv \<and> cmod (sv ! 0) = 1 / sqrt (real_of_int n)"
proof -
  let ?gs = "map (\<lambda>i. CRY (w_angle (n - int i)) (i - 1) i) [1..<nat n]"
  let ?c = "\<lparr>num_qubits = nat n, num_clbits = 0, gates = RY (w_angle n) 0 # ?gs, measures = []\<rparr>"
  have c: "create_w_state n = Inr ?c"
    using assms by (simp add: create_w_state_def)
  have r: "run ?c = Inr (foldl (\<lambda>s g. step g s) (step (RY (w_angle n) 0) (initialize (nat n))) ?gs)"
    using w_general_wf [OF assms(1)] by (simp add: run_wf)
  have "foldl (\<lambda>s g. step g s) (step (RY (w_angle n) 0) (initialize (nat n))) ?gs ! 0
        = step (RY (w_angle n) 0) (initialize (nat n)) ! 0"
    by (rule foldl_controlled_0) (simp_all add: list_all_iff length_step initialize_def)
  also have "\<dots> = of_real (sqrt (1 / real_of_int n))"
    using assms(1) by (simp add: step_ry_0 w_angle_cos)
  finally have "cmod (foldl (\<lambda>s g. step g s) (step (RY (w_angle n) 0) (initialize (nat n))) ?gs ! 0)
        = 1 / sqrt (real_of_int n)"
    using assms(1) by (simp add: real_sqrt_divide norm_divide)
  with c r show ?thesis by blast
qed

lemma w2_sv: "\<exists>c sv. create_w_state 2 = Inr c \<and> run c = Inr sv \<and> map cmod sv = [1 / sqrt 2, 1 / sqrt 2, 0, 0]"
  by (simp add: create_w_state_def run_wf wf_gate_def gate_qubits_def eval_simps ry_matrix_def
      w_angle_cos w_angle_sin real_sqrt_divide norm_divide)

section \<open>Sampling\<close>


lemma draw_from_pos:
  "acc \<le> u \<Longrightarrow> u < acc + sum_list ps
   \<Longrightarrow> draw_from acc ps u < length ps \<and> 0 < ps ! draw_from acc ps u"
proof (induction ps arbitrary: acc)
  case Nil
  then show ?case by simp
next
  case (Cons p ps)
  show ?case
  proof (cases "u < acc + p")
    case True
    then show ?thesis using Cons.prems by simp
  next
    case False
    then have "acc + p \<le> u" "u < (acc + p) + sum_list ps"
      using Cons.prems by simp_all
    from Cons.IH [OF this] False show ?thesis by simp
  qed
qed

lemma draw_pos:
  "0 \<le> u \<Longrightarrow> u < sum_list ps \<Longrightarrow> draw ps u < length ps \<and> 0 < ps ! draw ps u"
  using draw_from_pos [of 0 u ps] by (simp add: draw_def)

lemma dom_foldl_tally:
  "dom (foldl (\<lambda>c k. tally c (f k)) c0 ks) = dom c0 \<union> f ` set ks"
  by (induction ks arbitrary: c0) (auto simp add: tally_def)

lemma tally_empty: "tally Map.empty k = [k \<mapsto> 1]"
  by (simp add: tally_def)

lemma tally_same: "tally [s \<mapsto> n] s = [s \<mapsto> Suc n]"
  by (simp add: tally_def)

lemma foldl_tally_const:
  "(\<forall>k \<le> n. f k = s)
   \<Longrightarrow> foldl (\<lambda>c k. tally c (f k)) Map.empty [0..<Suc n] = [s \<mapsto> Suc n]"
proof (induction n)
  case 0
  then show ?case by (simp add: tally_empty)
next
  case (Suc n)
  let ?F = "\<lambda>c k. tally c (f k)"
  have "\<forall>k \<le> n. f k = s"
    using Suc.prems by simp
  then have IH: "foldl ?F Map.empty [0..<Suc n] = [s \<mapsto> Suc n]"
    by (rule Suc.IH)
  have fs: "f (Suc n) = s"
    using Suc.prems by simp
  have "foldl ?F Map.empty [0..<Suc (Suc n)] = tally (foldl ?F Map.empty [0..<Suc n]) (f (Suc n))"
    by simp
  also have "\<dots> = tally [s \<mapsto> Suc n] s"
    by (simp only: IH fs)
  also have "\<dots> = [s \<mapsto> Suc (Suc n)]"
    by (rule tally_same)
  finally show ?case .
qed

lemma count_of_tally: "count_of (tally c k) s = count_of c s + (if k = s then 1 else 0)"
  by (simp add: count_of_def tally_def split: option.splits)

lemma foldl_tally_count:
  "count_of (foldl (\<lambda>c k. tally c (f k)) c0 ks) s
     = count_of c0 s + length (filter (\<lambda>k. f k = s) ks)"
  by (induction ks arbitrary: c0) (simp_all add: count_of_tally)

lemma count_of_empty: "count_of Map.empty s = 0"
  by (simp add: count_of_def)

lemma sample_counts:
  assumes "0 < shots"
  shows "\<exists>c. sample us ps render shots = Inr c
           \<and> dom c = outcome us ps render ` {..<nat shots}
           \<and> (\<forall>s. count_of c s
                  = length (filter (\<lambda>k. outcome us ps render k = s) [0..<nat shots]))"
  using assms
  by (simp add: sample_def dom_foldl_tally foldl_tally_count count_of_empty atLeast0LessThan)

lemma sample_certain:
  assumes "uniform_stream us" "sum_list ps = 1" "0 < shots"
    and "\<forall>i < length ps. 0 < ps ! i \<longrightarrow> i = j"
  shows "sample us ps render shots = Inr [render j \<mapsto> nat shots]"
proof -
  have out: "outcome us ps render k = render j" for k
    using draw_pos [of "us k" ps] assms(1,2,4)
    by (auto simp add: outcome_def uniform_stream_def)
  obtain n where n: "nat shots = Suc n"
    using assms(3) by (cases "nat shots") auto
  show ?thesis
    using assms(3) foldl_tally_const [of n "outcome us ps render" "render j"]
    by (simp add: sample_def n out)
qed

text \<open>Sampling a distribution with weight \<open>1/2\<close> on its first and its last index and 0
  between: a draw below \<open>1/2\<close> gives the first index, any other draw the last.\<close>

lemma two_point_counts:
  assumes u: "uniform_stream us" and shots: "0 < shots"
    and d: "\<And>x. 0 \<le> x \<Longrightarrow> x < 1 \<Longrightarrow> draw ps x = (if x < 1 / 2 then i else j)"
    and ne: "render i \<noteq> render j"
  shows "\<exists>c. sample us ps render shots = Inr c
           \<and> dom c \<subseteq> {render i, render j}
           \<and> count_of c (render i) = length (filter (\<lambda>k. us k < 1 / 2) [0..<nat shots])
           \<and> count_of c (render j) = length (filter (\<lambda>k. 1 / 2 \<le> us k) [0..<nat shots])
           \<and> count_of c (render i) + count_of c (render j) = nat shots"
proof -
  have out: "outcome us ps render k = (if us k < 1 / 2 then render i else render j)" for k
    using u d [of "us k"] by (simp add: outcome_def uniform_stream_def)
  from sample_counts [OF shots, of us ps render] obtain c
    where c: "sample us ps render shots = Inr c"
      "dom c = outcome us ps render ` {..<nat shots}"
      "\<And>s. count_of c s = length (filter (\<lambda>k. outcome us ps render k = s) [0..<nat shots])"
    by blast
  have a: "count_of c (render i) = length (filter (\<lambda>k. us k < 1 / 2) [0..<nat shots])"
    unfolding c(3) using ne by (intro arg_cong [where f = length] filter_cong) (auto simp add: out)
  have b: "count_of c (render j) = length (filter (\<lambda>k. \<not> us k < 1 / 2) [0..<nat shots])"
    unfolding c(3) using ne by (intro arg_cong [where f = length] filter_cong) (auto simp add: out)
  have "length (filter (\<lambda>k. us k < 1 / 2) [0..<nat shots])
        + length (filter (\<lambda>k. \<not> us k < 1 / 2) [0..<nat shots]) = length [0..<nat shots]"
    by (rule sum_length_filter_compl)
  then have t: "count_of c (render i) + count_of c (render j) = nat shots"
    by (simp add: a b)
  have "dom c \<subseteq> {render i, render j}"
    unfolding c(2) by (auto simp add: out)
  with c(1) a b t show ?thesis
    by (simp add: not_less)
qed

lemma clbit_values:
  "clbit_string [(0, 0)] 1 0 = ''0''"
  "clbit_string [(0, 0), (1, 1)] 2 0 = ''00''"
  "clbit_string [(0, 0), (1, 1)] 2 3 = ''11''"
  "clbit_string [(0, 0), (1, 1), (2, 2)] 3 0 = ''000''"
  "clbit_string [(0, 0), (1, 1), (2, 2)] 3 7 = ''111''"
  by (simp_all add: clbit_string_def measured_qubit_def upt_rec bit_iff_odd)

lemma bell_sv': "run \<lparr>num_qubits = 2, num_clbits = m, gates = [H 0, CX 0 1], measures = ms\<rparr>
   = Inr [of_real (1 / sqrt 2), 0, 0, of_real (1 / sqrt 2)]"
  by (simp add: run_wf wf_gate_def gate_qubits_def eval_simps)

section \<open>The circuits of the experiments and tests\<close>

lemma uniform_half_stream: "uniform_stream half_stream"
  by (simp add: uniform_stream_def half_stream_def)

text \<open>C1. The claim is that \<open>create_w_state(n)\<close> yields magnitude \<open>1/sqrt n\<close> on the
  \<open>n\<close> basis states of Hamming weight 1 and 0 elsewhere, for \<open>n = 2, 3, 4, 5\<close>. What the
  circuits of the source produce: the explicit sequence for \<open>n = 3\<close> ends with magnitude
  \<open>1/2\<close> on the indices 1, 2, 4 and 7 (index 7 has Hamming weight 3); the general
  formula for \<open>n = 2\<close> ends with magnitude \<open>1/sqrt 2\<close> on the indices 0 and 1, and for
  \<open>n = 4\<close> and \<open>n = 5\<close> it leaves magnitude \<open>1/sqrt n\<close> on index 0 (Hamming weight 0).\<close>

theorem w_state_amplitudes:
  "(\<exists>c sv. create_w_state 3 = Inr c \<and> gates c = [X 0, CH 0 1, CH 0 2, CX 1 0, CX 2 0]
       \<and> run c = Inr sv \<and> map cmod sv = [0, 1 / 2, 1 / 2, 0, 1 / 2, 0, 0, 1 / 2])
   \<and> (\<exists>c sv. create_w_state 2 = Inr c \<and> run c = Inr sv
       \<and> map cmod sv = [1 / sqrt 2, 1 / sqrt 2, 0, 0])
   \<and> (\<exists>c sv. create_w_state 4 = Inr c \<and> run c = Inr sv \<and> cmod (sv ! 0) = 1 / 2)
   \<and> (\<exists>c sv. create_w_state 5 = Inr c \<and> run c = Inr sv \<and> cmod (sv ! 0) = 1 / sqrt 5)"
proof (intro conjI)
  show "\<exists>c sv. create_w_state 3 = Inr c \<and> gates c = [X 0, CH 0 1, CH 0 2, CX 1 0, CX 2 0]
       \<and> run c = Inr sv \<and> map cmod sv = [0, 1 / 2, 1 / 2, 0, 1 / 2, 0, 0, 1 / 2]"
    by (simp add: create_w_state_def w3_sv [simplified])
  show "\<exists>c sv. create_w_state 2 = Inr c \<and> run c = Inr sv
       \<and> map cmod sv = [1 / sqrt 2, 1 / sqrt 2, 0, 0]"
    by (rule w2_sv)
  show "\<exists>c sv. create_w_state 4 = Inr c \<and> run c = Inr sv \<and> cmod (sv ! 0) = 1 / 2"
    using w_general_amp0 [of 4] by simp
  show "\<exists>c sv. create_w_state 5 = Inr c \<and> run c = Inr sv \<and> cmod (sv ! 0) = 1 / sqrt 5"
    using w_general_amp0 [of 5] by simp
qed

text \<open>C2. \<open>create_bell_state('phi_plus')\<close> is the gate sequence H(0), CX(0,1); run from the
  all-zero state it gives magnitude \<open>1/sqrt 2\<close> at the indices 0 and 3 and 0 at the
  indices 1 and 2; sampling it with 1000 shots (\<open>test_bell_state\<close>) tallies every one of
  the 1000 shots under "00" or "11" (a draw below 1/2 under "00", any other under "11"),
  so the two counts add up to 1000 and there is no entry for "01" or "10", whatever
  uniform numbers the generator draws.\<close>

theorem bell_phi_plus:
  assumes "uniform_stream us"
  shows "create_bell_state ''phi_plus''
           = Inr \<lparr>num_qubits = 2, num_clbits = 2, gates = [H 0, CX 0 1], measures = []\<rparr>
    \<and> (\<exists>sv. run \<lparr>num_qubits = 2, num_clbits = 2, gates = [H 0, CX 0 1], measures = []\<rparr> = Inr sv
          \<and> map cmod sv = [1 / sqrt 2, 0, 0, 1 / sqrt 2])
    \<and> (\<exists>c. test_bell_state us = Inr c \<and> dom c \<subseteq> {''00'', ''11''}
          \<and> c ''01'' = None \<and> c ''10'' = None
          \<and> count_of c ''00'' = length (filter (\<lambda>k. us k < 1 / 2) [0..<1000])
          \<and> count_of c ''11'' = length (filter (\<lambda>k. 1 / 2 \<le> us k) [0..<1000])
          \<and> count_of c ''00'' + count_of c ''11'' = 1000)"
proof (intro conjI)
  show "create_bell_state ''phi_plus''
           = Inr \<lparr>num_qubits = 2, num_clbits = 2, gates = [H 0, CX 0 1], measures = []\<rparr>"
    by (simp add: create_bell_state_def)
  show "\<exists>sv. run \<lparr>num_qubits = 2, num_clbits = 2, gates = [H 0, CX 0 1], measures = []\<rparr> = Inr sv
          \<and> map cmod sv = [1 / sqrt 2, 0, 0, 1 / sqrt 2]"
    by (simp add: bell_sv' [simplified] norm_divide)
  let ?ps = "[1 / 2, 0, 0, 1 / 2] :: real list"
  let ?r = "clbit_string [(0, 0), (1, 1)] 2"
  have d: "draw ?ps x = (if x < 1 / 2 then 0 else 3)" if "0 \<le> x" "x < 1" for x
    using that by (simp add: draw_def)
  have r0: "?r 0 = ''00''" and r3: "?r 3 = ''11''"
    by (rule clbit_values)+
  have ne: "?r 0 \<noteq> ?r 3"
    unfolding r0 r3 by simp
  have sh: "(0::int) < 1000"
    by simp
  from two_point_counts [of us 1000 ?ps 0 3 ?r, OF assms sh d ne, unfolded r0 r3]
  obtain c where c: "sample us ?ps ?r 1000 = Inr c" "dom c \<subseteq> {''00'', ''11''}"
      "count_of c ''00'' = length (filter (\<lambda>k. us k < 1 / 2) [0..<1000])"
      "count_of c ''11'' = length (filter (\<lambda>k. 1 / 2 \<le> us k) [0..<1000])"
      "count_of c ''00'' + count_of c ''11'' = 1000"
    by auto
  have t: "test_bell_state us = Inr c"
    using c(1)
    by (simp add: test_bell_state_def create_bell_state_def run_circuit_sampler_def
        measure_qubits_def bell_sv' [simplified] probabilities_def norm_divide power_divide)
  have "c ''01'' = None" "c ''10'' = None"
    using c(2) by (auto simp add: domIff subset_iff)
  with t c show "\<exists>c. test_bell_state us = Inr c \<and> dom c \<subseteq> {''00'', ''11''}
          \<and> c ''01'' = None \<and> c ''10'' = None
          \<and> count_of c ''00'' = length (filter (\<lambda>k. us k < 1 / 2) [0..<1000])
          \<and> count_of c ''11'' = length (filter (\<lambda>k. 1 / 2 \<le> us k) [0..<1000])
          \<and> count_of c ''00'' + count_of c ''11'' = 1000"
    by blast
qed

theorem bell_phi_plus_witness:
  "uniform_stream half_stream
   \<and> (\<exists>c. test_bell_state half_stream = Inr c \<and> dom c \<subseteq> {''00'', ''11''}
         \<and> count_of c ''00'' = 0 \<and> count_of c ''11'' = 1000)"
proof -
  from bell_phi_plus [OF uniform_half_stream] obtain c
    where c: "test_bell_state half_stream = Inr c" "dom c \<subseteq> {''00'', ''11''}"
      "count_of c ''00'' = length (filter (\<lambda>k. half_stream k < 1 / 2) [0..<1000])"
      "count_of c ''00'' + count_of c ''11'' = 1000"
    by blast
  from c(3) have z: "count_of c ''00'' = 0"
    by (simp add: half_stream_def)
  with c(4) have "count_of c ''11'' = 1000"
    by simp
  with c(1,2) z uniform_half_stream show ?thesis
    by blast
qed

lemma ghz_sv': "run \<lparr>num_qubits = 3, num_clbits = m, gates = [H 0, CX 0 1, CX 0 2], measures = ms\<rparr>
   = Inr [of_real (1 / sqrt 2), 0, 0, 0, 0, 0, 0, of_real (1 / sqrt 2)]"
  by (simp add: run_wf wf_gate_def gate_qubits_def eval_simps)

text \<open>C3. The GHZ circuit H(0), CX(0,1), CX(0,2), run from the all-zero state, gives
  magnitude \<open>1/sqrt 2\<close> at the indices 0 and 7 and 0 at the six others; sampling the
  measured circuit tallies every shot under "000" or "111" (a draw below 1/2 under
  "000", any other under "111"), so the two counts add up to the number of shots and no
  other bitstring occurs, for every positive number of shots and whatever uniform
  numbers the generator draws.\<close>

theorem ghz_three:
  assumes "uniform_stream us" "0 < shots"
  shows "gates qc_ghz = [H 0, CX 0 1, CX 0 2] \<and> gates qc_ghz_sv = [H 0, CX 0 1, CX 0 2]
    \<and> (\<exists>sv. run qc_ghz_sv = Inr sv
          \<and> map cmod sv = [1 / sqrt 2, 0, 0, 0, 0, 0, 0, 1 / sqrt 2])
    \<and> (\<exists>c. run_circuit_sampler us qc_ghz shots = Inr c \<and> dom c \<subseteq> {''000'', ''111''}
          \<and> count_of c ''000'' = length (filter (\<lambda>k. us k < 1 / 2) [0..<nat shots])
          \<and> count_of c ''111'' = length (filter (\<lambda>k. 1 / 2 \<le> us k) [0..<nat shots])
          \<and> count_of c ''000'' + count_of c ''111'' = nat shots)"
proof -
  let ?ps = "[1 / 2, 0, 0, 0, 0, 0, 0, 1 / 2] :: real list"
  let ?r = "clbit_string [(0, 0), (1, 1), (2, 2)] 3"
  have d: "draw ?ps x = (if x < 1 / 2 then 0 else 7)" if "0 \<le> x" "x < 1" for x
    using that by (simp add: draw_def)
  have r0: "?r 0 = ''000''" and r7: "?r 7 = ''111''"
    by (rule clbit_values)+
  have ne: "?r 0 \<noteq> ?r 7"
    unfolding r0 r7 by simp
  from two_point_counts [of us shots ?ps 0 7 ?r, OF assms d ne, unfolded r0 r7]
  obtain c where c: "sample us ?ps ?r shots = Inr c" "dom c \<subseteq> {''000'', ''111''}"
      "count_of c ''000'' = length (filter (\<lambda>k. us k < 1 / 2) [0..<nat shots])"
      "count_of c ''111'' = length (filter (\<lambda>k. 1 / 2 \<le> us k) [0..<nat shots])"
      "count_of c ''000'' + count_of c ''111'' = nat shots"
    by auto
  have "run_circuit_sampler us qc_ghz shots = Inr c"
    using c(1)
    by (simp add: qc_ghz_def run_circuit_sampler_def measure_qubits_def
        ghz_sv' [simplified] probabilities_def norm_divide power_divide)
  with c have "\<exists>c. run_circuit_sampler us qc_ghz shots = Inr c \<and> dom c \<subseteq> {''000'', ''111''}
          \<and> count_of c ''000'' = length (filter (\<lambda>k. us k < 1 / 2) [0..<nat shots])
          \<and> count_of c ''111'' = length (filter (\<lambda>k. 1 / 2 \<le> us k) [0..<nat shots])
          \<and> count_of c ''000'' + count_of c ''111'' = nat shots"
    by blast
  moreover have "gates qc_ghz = [H 0, CX 0 1, CX 0 2]" "gates qc_ghz_sv = [H 0, CX 0 1, CX 0 2]"
    by (simp_all add: qc_ghz_def qc_ghz_sv_def measure_qubits_def)
  moreover have "\<exists>sv. run qc_ghz_sv = Inr sv
          \<and> map cmod sv = [1 / sqrt 2, 0, 0, 0, 0, 0, 0, 1 / sqrt 2]"
    by (simp add: qc_ghz_sv_def ghz_sv' [simplified] norm_divide)
  ultimately show ?thesis
    by blast
qed

theorem ghz_three_witness:
  "uniform_stream half_stream \<and> (0::int) < 2048
   \<and> (\<exists>c. run_circuit_sampler half_stream qc_ghz 2048 = Inr c \<and> dom c \<subseteq> {''000'', ''111''}
         \<and> count_of c ''000'' = 0 \<and> count_of c ''111'' = 2048)"
proof -
  from ghz_three [OF uniform_half_stream, of 2048] obtain c
    where c: "run_circuit_sampler half_stream qc_ghz 2048 = Inr c" "dom c \<subseteq> {''000'', ''111''}"
      "count_of c ''000'' = length (filter (\<lambda>k. half_stream k < 1 / 2) [0..<nat 2048])"
      "count_of c ''000'' + count_of c ''111'' = nat 2048"
    by auto
  from c(3) have z: "count_of c ''000'' = 0"
    by (simp add: half_stream_def)
  with c(4) have "count_of c ''111'' = 2048"
    by simp
  with c(1,2) z uniform_half_stream show ?thesis
    by auto
qed

text \<open>C8. H applied twice to one qubit at \<open>|0>\<close> gives exactly the statevector [1, 0],
  and sampling that circuit with 1000 shots (\<open>test_identity\<close>) gives exactly the counts
  {"0": 1000}, whatever uniform numbers the generator draws.\<close>

theorem hadamard_twice_identity:
  assumes "uniform_stream us"
  shows "run qc_hh = Inr [1, 0] \<and> test_identity us = Inr [''0'' \<mapsto> 1000]"
proof -
  have r: "run qc_hh = Inr [1, 0]"
    by (simp add: qc_hh_def measure_qubits_def run_wf wf_gate_def gate_qubits_def eval_simps sqrt2_sq)
  have "sample us [1, 0] (clbit_string [(0, 0)] 1) 1000
          = Inr [clbit_string [(0, 0)] 1 0 \<mapsto> nat 1000]"
    by (rule sample_certain [OF assms]) (auto simp add: less_Suc_eq)
  then have "sample us [1, 0] (clbit_string [(0, 0)] 1) 1000 = Inr [''0'' \<mapsto> 1000]"
    by (simp only: clbit_values nat_numeral)
  moreover have "measures qc_hh = [(0, 0)]" "num_clbits qc_hh = 1"
    by (simp_all add: qc_hh_def measure_qubits_def)
  ultimately have "test_identity us = Inr [''0'' \<mapsto> 1000]"
    by (simp add: test_identity_def run_circuit_sampler_def r probabilities_def)
  with r show ?thesis by simp
qed

theorem hadamard_twice_identity_witness:
  "uniform_stream half_stream \<and> test_identity half_stream = Inr [''0'' \<mapsto> 1000]"
  using hadamard_twice_identity [OF uniform_half_stream] uniform_half_stream by simp

text \<open>C7. \<open>create_bell_state\<close> with a variant name outside the four known ones raises
  \<open>ValueError\<close> (the specification's \<open>InvalidParameterError\<close>), and so does
  \<open>create_w_state\<close> with \<open>n < 2\<close>; in both cases the result is the error and no circuit.\<close>

theorem factories_reject_bad_parameters:
  "(variant \<notin> {''phi_plus'', ''phi_minus'', ''psi_plus'', ''psi_minus''}
      \<longrightarrow> create_bell_state variant = Inl ValueError)
   \<and> (n < 2 \<longrightarrow> create_w_state n = Inl ValueError)"
  by (simp add: create_bell_state_def create_w_state_def)

theorem factories_reject_bad_parameters_witness:
  "''unknown'' \<notin> {''phi_plus'', ''phi_minus'', ''psi_plus'', ''psi_minus''}
   \<and> create_bell_state ''unknown'' = Inl ValueError
   \<and> (1::int) < 2 \<and> create_w_state 1 = Inl ValueError"
  using factories_reject_bad_parameters [of "''unknown''" 1] by simp

section \<open>Shot counts\<close>

lemma sample_nonpositive: "shots \<le> 0 \<Longrightarrow> sample us ps render shots = Inl ValueError"
  by (simp add: sample_def)

text \<open>C6, as amended. With a shot count \<open>\<le> 0\<close>, \<open>run_circuit_sampler\<close> and \<open>run_show\<close>
  (which calls it without a guard) end in an error, and that error is \<open>ValueError\<close>
  for every circuit whose gates fit the register. \<open>run_and_print\<close> guards the sampling
  with \<open>if shots > 0\<close>: with a shot count \<open>\<le> 0\<close> it raises nothing, prints no counts and
  goes on to the statevector part.\<close>

theorem nonpositive_shots:
  assumes "shots \<le> 0"
  shows "isl (run_circuit_sampler us qc shots) \<and> isl (run_show us qc shots b)
    \<and> (list_all (wf_gate (num_qubits qc)) (gates qc)
         \<longrightarrow> run_circuit_sampler us qc shots = Inl ValueError
             \<and> run_show us qc shots b = Inl ValueError)
    \<and> run_and_print us qc shots False
         = Inr \<lparr>counts_printed = None, lines_printed = [], returned = None\<rparr>
    \<and> run_and_print us qc shots True
         = (case run (remove_final_measurements qc) of
              Inl e \<Rightarrow> Inl e
            | Inr sv \<Rightarrow> Inr \<lparr>counts_printed = None, lines_printed = amplitude_lines 3 sv,
                             returned = Some sv\<rparr>)"
proof -
  have s: "isl (run_circuit_sampler us qc shots)"
    using assms by (simp add: run_circuit_sampler_def sample_nonpositive split: sum.splits)
  then have "isl (run_show us qc shots b)"
    by (cases "run_circuit_sampler us qc shots") (simp_all add: run_show_def)
  moreover have "run_circuit_sampler us qc shots = Inl ValueError
      \<and> run_show us qc shots b = Inl ValueError"
    if "list_all (wf_gate (num_qubits qc)) (gates qc)"
    using that assms by (simp add: run_show_def run_circuit_sampler_def run_wf sample_nonpositive)
  moreover have "run_and_print us qc shots False
         = Inr \<lparr>counts_printed = None, lines_printed = [], returned = None\<rparr>"
    using assms by (simp add: run_and_print_def)
  moreover have "run_and_print us qc shots True
         = (case run (remove_final_measurements qc) of
              Inl e \<Rightarrow> Inl e
            | Inr sv \<Rightarrow> Inr \<lparr>counts_printed = None, lines_printed = amplitude_lines 3 sv,
                             returned = Some sv\<rparr>)"
    using assms by (simp add: run_and_print_def)
  ultimately show ?thesis
    using s by blast
qed

theorem nonpositive_shots_witness:
  "(0::int) \<le> 0 \<and> list_all (wf_gate (num_qubits qc_ghz)) (gates qc_ghz)
   \<and> run_circuit_sampler zero_stream qc_ghz 0 = Inl ValueError
   \<and> run_show zero_stream qc_ghz 0 True = Inl ValueError
   \<and> run_and_print zero_stream qc_ghz 0 False
       = Inr \<lparr>counts_printed = None, lines_printed = [], returned = None\<rparr>"
proof -
  have w: "list_all (wf_gate (num_qubits qc_ghz)) (gates qc_ghz)"
    by (simp add: qc_ghz_def measure_qubits_def wf_gate_def gate_qubits_def)
  from nonpositive_shots [of 0 zero_stream qc_ghz True] w show ?thesis
    by simp
qed

text \<open>C6, the claim as stated fails: \<open>run_and_print(qc_ghz_sv, shots=0,
  show_statevector=True)\<close>, the call made in \<open>ghz_experiments\<close>, raises no error; it skips
  the sampling and returns the statevector.\<close>

theorem silent_skip_counterexample:
  "map_sum id counts_printed (run_and_print zero_stream qc_ghz_sv 0 True) = Inr None
   \<and> map_sum id returned (run_and_print zero_stream qc_ghz_sv 0 True)
       = Inr (Some [1 / of_real (sqrt 2), 0, 0, 0, 0, 0, 0, 1 / of_real (sqrt 2)])
   \<and> run_and_print zero_stream qc_ghz_sv 0 True \<noteq> Inl ValueError"
  by (simp add: run_and_print_def remove_final_measurements_def qc_ghz_sv_def ghz_sv' [simplified])

section \<open>Printing a statevector\<close>

lemma ilog2_power: "ilog2 (2 ^ n) = n"
proof (induction n)
  case 0
  show ?case by (simp add: ilog2.simps)
next
  case (Suc n)
  have "ilog2 (2 ^ Suc n) = Suc (ilog2 (2 ^ Suc n div 2))"
    by (subst ilog2.simps) simp
  then show ?case using Suc by simp
qed

lemma rev_bin_digits:
  "rev (bin_digits i) =
     (if even i then CHR ''0'' else CHR ''1'') # (if i < 2 then [] else rev (bin_digits (i div 2)))"
  by (subst bin_digits.simps) auto

lemma length_bin_digits:
  "length (bin_digits i) = (if i < 2 then 1 else Suc (length (bin_digits (i div 2))))"
  by (subst bin_digits.simps) simp

lemma map_upt_Suc: "map f [0..<Suc n] = f 0 # map (\<lambda>q. f (Suc q)) [0..<n]"
  by (simp only: upt_conv_Cons [of 0 "Suc n"] zero_less_Suc if_True list.map map_Suc_upt [symmetric] map_map o_def)

lemma rev_digits_bits:
  "0 < n \<Longrightarrow> i < 2 ^ n
   \<Longrightarrow> rev (bin_digits i) @ replicate (n - length (bin_digits i)) CHR ''0''
       = map (\<lambda>q. if bit i q then CHR ''1'' else CHR ''0'') [0..<n]"
proof (induction n arbitrary: i)
  case 0
  then show ?case by simp
next
  case (Suc n)
  let ?d = "if even i then CHR ''0'' else CHR ''1''"
  have m: "map (\<lambda>q. if bit i q then CHR ''1'' else CHR ''0'') [0..<Suc n]
      = ?d # map (\<lambda>q. if bit (i div 2) q then CHR ''1'' else CHR ''0'') [0..<n]"
    unfolding map_upt_Suc by (simp add: bit_0 bit_Suc)
  show ?case
  proof (cases "i < 2")
    case True
    then have "i div 2 = 0" by simp
    then have "map (\<lambda>q. if bit (i div 2) q then CHR ''1'' else CHR ''0'') [0..<n]
        = replicate n CHR ''0''"
      by (simp add: map_replicate_const)
    then show ?thesis
      unfolding m using True
      by (simp add: rev_bin_digits [of i] length_bin_digits [of i])
  next
    case False
    then have n: "0 < n"
      using Suc.prems(2) by (cases n) auto
    have "i div 2 < 2 ^ n"
      using Suc.prems(2) by simp
    from Suc.IH [OF n this] show ?thesis
      unfolding m using False
      by (simp add: rev_bin_digits [of i] length_bin_digits [of i])
  qed
qed

lemma format_bin_bitstring:
  assumes "0 < n" "i < 2 ^ n"
  shows "format_bin n i = bitstring n i"
proof -
  have "rev (format_bin n i) = map (\<lambda>q. if bit i q then CHR ''1'' else CHR ''0'') [0..<n]"
    using rev_digits_bits [OF assms] by (simp add: format_bin_def)
  then have "format_bin n i = rev (map (\<lambda>q. if bit i q then CHR ''1'' else CHR ''0'') [0..<n])"
    by (metis rev_rev_ident)
  then show ?thesis
    by (simp add: bitstring_def rev_map)
qed

text \<open>C9, as amended. For a statevector of \<open>n \<ge> 1\<close> qubits, \<open>print_statevector\<close> lists, in
  increasing order, exactly the basis indices whose magnitude is strictly above the
  threshold (default \<open>1e-10\<close>). Each entry carries the index as the \<open>n\<close>-bit string with
  qubit 0 rightmost and the magnitude; it carries the phase only when the absolute value
  of the phase is not below the same threshold.\<close>

theorem print_statevector_entries:
  assumes "length sv = 2 ^ n" "0 < n"
  shows "print_statevector sv thr =
     map (\<lambda>i. \<lparr>basis = bitstring n i, magnitude = cmod (sv ! i),
               phase = (if \<bar>Arg (sv ! i)\<bar> < thr then None else Some (Arg (sv ! i)))\<rparr>)
         (filter (\<lambda>i. thr < cmod (sv ! i)) [0..<2 ^ n])
    \<and> default_threshold = 1 / 10 ^ 10"
proof -
  have "print_entry thr n i (sv ! i)
      = \<lparr>basis = bitstring n i, magnitude = cmod (sv ! i),
         phase = (if \<bar>Arg (sv ! i)\<bar> < thr then None else Some (Arg (sv ! i)))\<rparr>"
    if "i \<in> set (filter (\<lambda>i. thr < cmod (sv ! i)) [0..<2 ^ n])" for i
    using that assms(2) by (simp add: print_entry_def format_bin_bitstring)
  then show ?thesis
    by (simp add: print_statevector_def assms(1) ilog2_power default_threshold_def cong: map_cong)
qed

lemma Arg_of_real_pos: "0 < x \<Longrightarrow> Arg (of_real x) = 0"
  by (rule cis_Arg_unique) (simp_all add: sgn_eq)

lemma sqrt2_less: "sqrt 2 < 2"
proof -
  have "sqrt 2 < sqrt 4" by (rule real_sqrt_less_mono) simp
  moreover have "sqrt 4 = 2" by simp
  ultimately show ?thesis by (simp only:)
qed

theorem print_statevector_entries_witness:
  "length [1, 0 :: complex] = 2 ^ 1 \<and> (0::nat) < 1
   \<and> print_statevector [1, 0] default_threshold
       = [\<lparr>basis = ''0'', magnitude = 1, phase = None\<rparr>]"
proof -
  have "Arg 1 = 0"
    using Arg_of_real_pos [of 1] by simp
  then show ?thesis
    using print_statevector_entries [of "[1, 0]" 1 default_threshold]
    by (simp add: bitstring_def default_threshold_def upt_rec)
qed

text \<open>C9, the claim as stated fails: for the \<open>phi_plus\<close> Bell state and the default
  threshold both listed entries report the magnitude alone, without a phase.\<close>

theorem phase_omitted_counterexample:
  "print_statevector [of_real (1 / sqrt 2), 0, 0, of_real (1 / sqrt 2)] default_threshold
     = [\<lparr>basis = ''00'', magnitude = 1 / sqrt 2, phase = None\<rparr>,
        \<lparr>basis = ''11'', magnitude = 1 / sqrt 2, phase = None\<rparr>]"
proof -
  have a: "Arg (of_real (1 / sqrt 2)) = 0"
    by (rule Arg_of_real_pos) simp
  have b: "sqrt 2 < 10000000000"
    using sqrt2_less by linarith
  have c: "cmod (of_real (1 / sqrt 2)) = 1 / sqrt 2"
    by (simp add: norm_divide)
  have d: "ilog2 (Suc (Suc (Suc (Suc 0)))) = 2"
    using ilog2_power [of 2] by (simp add: eval_nat_numeral)
  show ?thesis
    unfolding print_statevector_def print_entry_def default_threshold_def
    by (simp add: a b c d upt_rec format_bin_def bin_digits.simps del: of_real_divide)
qed

section \<open>Comparing circuits\<close>

lemma conj_dot_scaled: "conj_dot sv (map (\<lambda>z. c * z) sv) = c * of_real (norm_sq sv)"
proof -
  have "sum_list (map2 (\<lambda>a b. cnj a * b) sv (map (\<lambda>z. c * z) sv))
      = c * of_real (sum_list (map (\<lambda>z. (cmod z)\<^sup>2) sv))"
  proof (induction sv)
    case Nil
    show ?case by simp
  next
    case (Cons a sv)
    have "cnj a * (c * a) = c * (a * cnj a)"
      by (simp add: mult_ac)
    also have "a * cnj a = of_real ((cmod a)\<^sup>2)"
      by (rule complex_norm_square [symmetric])
    finally have "cnj a * (c * a) = c * of_real ((cmod a)\<^sup>2)" .
    then show ?case
      using Cons by (simp add: algebra_simps del: of_real_power)
  qed
  then show ?thesis
    by (simp add: conj_dot_def norm_sq_def)
qed

lemma fidelity_same_up_to_phase:
  assumes "norm_sq sv1 = 1" "same_up_to_phase sv1 sv2"
  shows "fidelity sv1 sv2 = 1"
proof -
  from assms(2) obtain c where c: "cmod c = 1" "sv2 = map (\<lambda>z. c * z) sv1"
    by (auto simp add: same_up_to_phase_def)
  show ?thesis
    by (simp add: fidelity_def c(2) conj_dot_scaled norm_mult c(1) assms(1))
qed

text \<open>C10, as amended. For two measurement-free circuits on the same number of qubits
  whose gates fit the register, \<open>compare_circuits\<close> returns True if and only if the fidelity differs from 1 by
  at most \<open>1e-8 + 1e-5\<close> (the default tolerances of \<open>np.isclose\<close>). It returns True
  whenever the two statevectors are the same up to a global phase, and its result
  depends on the two simulated statevectors only, never on the gate lists.\<close>

theorem compare_circuits_fidelity:
  assumes "list_all (wf_gate (num_qubits qc1)) (gates qc1)"
    and "list_all (wf_gate (num_qubits qc2)) (gates qc2)"
    and "num_qubits qc1 = num_qubits qc2"
    and "measures qc1 = []" "measures qc2 = []"
  shows "\<exists>sv1 sv2. run qc1 = Inr sv1 \<and> run qc2 = Inr sv2
     \<and> compare_circuits qc1 qc2 = Inr (\<bar>fidelity sv1 sv2 - 1\<bar> \<le> 1 / 10 ^ 8 + 1 / 10 ^ 5)
     \<and> (same_up_to_phase sv1 sv2 \<longrightarrow> compare_circuits qc1 qc2 = Inr True)
     \<and> (\<forall>qc1' qc2'. run qc1' = run qc1 \<and> run qc2' = run qc2
           \<longrightarrow> compare_circuits qc1' qc2' = compare_circuits qc1 qc2)"
proof -
  from run_gates_wf [OF _ length_initialize norm_sq_initialize, of "gates qc1" "num_qubits qc1"] assms(1)
  obtain sv1 where r1: "run qc1 = Inr sv1" "length sv1 = 2 ^ num_qubits qc1" "norm_sq sv1 = 1"
    by (auto simp add: run_def list_all_iff)
  from run_gates_wf [OF _ length_initialize norm_sq_initialize, of "gates qc2" "num_qubits qc2"] assms(2)
  obtain sv2 where r2: "run qc2 = Inr sv2" "length sv2 = 2 ^ num_qubits qc2" "norm_sq sv2 = 1"
    by (auto simp add: run_def list_all_iff)
  have cmp: "compare_circuits qc1 qc2 = Inr (\<bar>fidelity sv1 sv2 - 1\<bar> \<le> 1 / 10 ^ 8 + 1 / 10 ^ 5)"
    by (simp add: compare_circuits_def r1 r2 assms(3) isclose_def)
  have ph: "same_up_to_phase sv1 sv2 \<longrightarrow> compare_circuits qc1 qc2 = Inr True"
    using fidelity_same_up_to_phase [OF r1(3)] by (simp add: cmp)
  have gl: "\<forall>qc1' qc2'. run qc1' = run qc1 \<and> run qc2' = run qc2
           \<longrightarrow> compare_circuits qc1' qc2' = compare_circuits qc1 qc2"
  proof (intro allI impI, elim conjE)
    fix qc1' qc2'
    assume "run qc1' = run qc1" "run qc2' = run qc2"
    then show "compare_circuits qc1' qc2' = compare_circuits qc1 qc2"
      unfolding compare_circuits_def by (simp only:)
  qed
  show ?thesis
    apply (rule exI [of _ sv1])
    apply (rule exI [of _ sv2])
    using r1(1) r2(1) cmp ph gl
    apply (intro conjI)
        apply assumption+
    done
qed

lemma x_sv: "run qc_x = Inr [0, 1]"
  by (simp add: qc_x_def run_wf wf_gate_def gate_qubits_def eval_simps)

lemma xz_sv: "run qc_xz = Inr [0, - 1]"
  by (simp add: qc_xz_def run_wf wf_gate_def gate_qubits_def eval_simps)

theorem compare_circuits_fidelity_witness:
  "list_all (wf_gate (num_qubits qc_x)) (gates qc_x)
   \<and> list_all (wf_gate (num_qubits qc_xz)) (gates qc_xz)
   \<and> num_qubits qc_x = num_qubits qc_xz
   \<and> measures qc_x = [] \<and> measures qc_xz = []
   \<and> gates qc_x \<noteq> gates qc_xz
   \<and> run qc_x = Inr [0, 1] \<and> run qc_xz = Inr [0, - 1]
   \<and> same_up_to_phase [0, 1] [0, - 1]
   \<and> compare_circuits qc_x qc_xz = Inr True"
proof -
  have w: "list_all (wf_gate (num_qubits qc_x)) (gates qc_x)"
    "list_all (wf_gate (num_qubits qc_xz)) (gates qc_xz)" "num_qubits qc_x = num_qubits qc_xz"
    "measures qc_x = []" "measures qc_xz = []"
    by (simp_all add: qc_x_def qc_xz_def wf_gate_def gate_qubits_def)
  have p: "same_up_to_phase [0, 1] [0, - 1]"
    unfolding same_up_to_phase_def by (rule exI [of _ "- 1"]) simp
  from compare_circuits_fidelity [OF w] obtain sv1 sv2
    where a: "run qc_x = Inr sv1" "run qc_xz = Inr sv2"
      "same_up_to_phase sv1 sv2 \<longrightarrow> compare_circuits qc_x qc_xz = Inr True"
    by blast
  from a(1,2) have "sv1 = [0, 1]" "sv2 = [0, - 1]"
    by (simp_all add: x_sv xz_sv)
  with a(3) p have "compare_circuits qc_x qc_xz = Inr True"
    by simp
  with w p show ?thesis
    by (simp add: x_sv xz_sv, simp add: qc_x_def qc_xz_def)
qed

lemma tilted_sv:
  "run qc_tilted = Inr [of_real (999999 / 1000000), of_real (sqrt (1 - (999999 / 1000000)\<^sup>2))]"
  by (simp add: qc_tilted_def run_wf wf_gate_def gate_qubits_def eval_simps ry_matrix_def
      cos_arccos sin_arccos)

text \<open>C10, the claim as stated fails: True is not returned exactly when the states agree
  up to a global phase. The empty one-qubit circuit and the circuit with one \<open>RY\<close> gate
  of angle \<open>2 * arccos 0.999999\<close> end in states that differ by more than a phase (the
  second has a non-zero amplitude on index 1), yet their fidelity \<open>0.999999\<close> is within
  the tolerance and \<open>compare_circuits\<close> returns True.\<close>

theorem near_states_counterexample:
  "run qc_idle = Inr [1, 0]
   \<and> run qc_tilted = Inr [of_real (999999 / 1000000), of_real (sqrt (1 - (999999 / 1000000)\<^sup>2))]
   \<and> \<not> same_up_to_phase [1, 0] [of_real (999999 / 1000000), of_real (sqrt (1 - (999999 / 1000000)\<^sup>2))]
   \<and> compare_circuits qc_idle qc_tilted = Inr True"
proof -
  have i: "run qc_idle = Inr [1, 0]"
    by (simp add: qc_idle_def run_def initialize_def)
  have n: "sqrt (1 - (999999 / 1000000)\<^sup>2) \<noteq> (0::real)"
    by (simp add: power2_eq_square)
  have "\<not> same_up_to_phase [1, 0] [of_real (999999 / 1000000), of_real (sqrt (1 - (999999 / 1000000)\<^sup>2))]"
    using n by (auto simp add: same_up_to_phase_def)
  moreover have "compare_circuits qc_idle qc_tilted = Inr True"
    by (simp add: compare_circuits_def i tilted_sv isclose_def fidelity_def conj_dot_def)
  ultimately show ?thesis
    using i tilted_sv by simp
qed

end
